theory Spec2Isabelle
  imports Complex_Main "HOL-Library.AList"
begin

section \<open>Values, errors and the backing store\<close>

text \<open>
  The module \<^verbatim>\<open>database.py\<close> drives a relational store through SQLAlchemy. The store
  itself is not part of the repository, so it is modelled here by its contract: a table
  per parameter name, every table with the integer primary-key column \<^verbatim>\<open>time\<close> (as
  \<^verbatim>\<open>__create_table\<close> declares it) and one column per device; a row holds one value per
  column, \<^verbatim>\<open>NULL\<close> where nothing was written.

  Python values are a datatype. \<open>NoneV\<close> is Python's \<^verbatim>\<open>None\<close> and SQL's \<^verbatim>\<open>NULL\<close>. Floats
  and decimals both carry a rational: the rounding of binary floating point is not
  modelled, and no statement below depends on it.
\<close>

datatype val = NoneV | IntV int | FloatV rat | DecimalV rat | BoolV bool | TextV string

text \<open>
  The storage types of \<^verbatim>\<open>cfg.DB_TYPES\<close> (the configuration table is not in the sources).
  A fixed-point type carries its precision and its scale.
\<close>

datatype sqltype = TInteger | TNumeric nat nat | TBoolean | TText

text \<open>
  The exceptions that the modelled code paths raise or catch. \<open>Unmodelled\<close> marks inputs
  whose handling is decided inside the store alone, by its version and mode: a record
  without an integer under \<^verbatim>\<open>time\<close> (the store would assign a key), and a value that does
  not fit the type of its column (the store would convert, round, clamp or refuse it).
  Nothing is stated about them.
\<close>

datatype error =
    NoSuchTableError | IntegrityError | InvalidRequestError | OperationalError
  | ProgrammingError | CompileError | KeyError | IndexError | TypeError | Unmodelled

text \<open>A Python dict, in insertion order: assignment is \<open>AList.update\<close>, lookup is \<open>map_of\<close>.\<close>

type_synonym 'v dict = "(string \<times> 'v) list"

record row =
  time :: int
  cells :: "string \<Rightarrow> val"

record ptable =
  device_columns :: "(string \<times> sqltype) list"
  rows :: "row list"

type_synonym store = "string \<rightharpoonup> ptable"

definition columns :: "ptable \<Rightarrow> (string \<times> sqltype) list" where
  "columns table = (''time'', TInteger) # device_columns table"

definition column_names :: "ptable \<Rightarrow> string list" where
  "column_names table = map fst (columns table)"

text \<open>The value a row shows in a column; the column \<^verbatim>\<open>time\<close> shows the key.\<close>

definition cell :: "row \<Rightarrow> string \<Rightarrow> val" where
  "cell r c = (if c = ''time'' then IntV (time r) else cells r c)"

text \<open>
  \<^verbatim>\<open>Table(name, self.metadata, autoload=True)\<close>: the table definition is read from the
  store; a name without a table raises \<^verbatim>\<open>NoSuchTableError\<close>. (The metadata object's cache
  of earlier reflections is not modelled: the registry is the store.)
\<close>

definition Table :: "store \<Rightarrow> string \<Rightarrow> error + ptable" where
  "Table db table_name =
     (case db table_name of None \<Rightarrow> Inl NoSuchTableError | Some table \<Rightarrow> Inr table)"

subsection \<open>Statements of the store\<close>

text \<open>
  The values a column keeps as they are written: \<^verbatim>\<open>NULL\<close> in any column; in an integer
  column the integers of four bytes; in a fixed-point column of precision \<open>p\<close> and scale
  \<open>s\<close> the numbers with at most \<open>p - s\<close> digits before and \<open>s\<close> digits after the point; in a
  boolean column the truth values; in a text column the texts of at most 65535 bytes.
\<close>

fun fits :: "sqltype \<Rightarrow> val \<Rightarrow> bool" where
  "fits ty NoneV = True"
| "fits TInteger (IntV n) = (- (2 ^ 31) \<le> n \<and> n < 2 ^ 31)"
| "fits (TNumeric p s) (IntV n) = (\<bar>n\<bar> < 10 ^ (p - s))"
| "fits (TNumeric p s) (FloatV x) =
     (\<bar>x\<bar> < 10 ^ (p - s) \<and> of_int \<lfloor>x * 10 ^ s\<rfloor> = x * 10 ^ s)"
| "fits (TNumeric p s) (DecimalV x) =
     (\<bar>x\<bar> < 10 ^ (p - s) \<and> of_int \<lfloor>x * 10 ^ s\<rfloor> = x * 10 ^ s)"
| "fits TBoolean (BoolV b) = True"
| "fits TText (TextV s) = (length s \<le> 65535)"
| "fits ty v = False"

text \<open>A record conforms to a table when each of its values fits the column it names.\<close>

definition conforms :: "ptable \<Rightarrow> val dict \<Rightarrow> bool" where
  "conforms table d =
     list_all (\<lambda>kv. case map_of (columns table) (fst kv) of
                       None \<Rightarrow> True | Some ty \<Rightarrow> fits ty (snd kv)) d"

text \<open>The entries of a record whose keys are columns of the table.\<close>

definition known_values :: "ptable \<Rightarrow> val dict \<Rightarrow> val dict" where
  "known_values table d = filter (\<lambda>kv. fst kv \<in> set (column_names table)) d"

text \<open>
  \<^verbatim>\<open>session.execute(table.insert(), column_values_dict)\<close>. The dict is passed as the
  parameters of the execution: a key that is no column of the table is left out of the
  statement. A row with the same \<^verbatim>\<open>time\<close> violates the primary key
  (\<^verbatim>\<open>IntegrityError\<close>); otherwise the row is appended, with \<^verbatim>\<open>NULL\<close> in the columns the dict
  does not mention.
\<close>

definition new_row :: "int \<Rightarrow> val dict \<Rightarrow> row" where
  "new_row k d =
     \<lparr>time = k, cells = (\<lambda>c. case map_of d c of None \<Rightarrow> NoneV | Some v \<Rightarrow> v)\<rparr>"

definition execute_insert :: "ptable \<Rightarrow> val dict \<Rightarrow> error + ptable" where
  "execute_insert table d =
     (if \<not> conforms table d then Inl Unmodelled
      else case map_of d ''time'' of
             Some (IntV k) \<Rightarrow>
               if k \<in> set (map time (rows table)) then Inl IntegrityError
               else Inr (table\<lparr>rows := rows table @ [new_row k (known_values table d)]\<rparr>)
           | _ \<Rightarrow> Inl Unmodelled)"

text \<open>
  \<^verbatim>\<open>table.update().where(table.c.time == key).values(**column_values_dict)\<close>: every row
  whose \<^verbatim>\<open>time\<close> equals the key takes the dict's values; its other columns stay. Here
  the dict is given to \<^verbatim>\<open>values\<close>, and a key that is no column of the table is refused when
  the statement is compiled. A statement that would move a row to another \<^verbatim>\<open>time\<close> is not
  modelled; \<^verbatim>\<open>_insert_in_session\<close> never builds one.
\<close>

definition set_values :: "val dict \<Rightarrow> row \<Rightarrow> row" where
  "set_values d r =
     \<lparr>time = (case map_of d ''time'' of Some (IntV k) \<Rightarrow> k | _ \<Rightarrow> time r),
      cells = (\<lambda>c. case map_of d c of None \<Rightarrow> cells r c | Some v \<Rightarrow> v)\<rparr>"

definition execute_update :: "ptable \<Rightarrow> val \<Rightarrow> val dict \<Rightarrow> error + ptable" where
  "execute_update table key d =
     (if \<not> set (map fst d) \<subseteq> set (column_names table) then Inl CompileError
      else if \<not> conforms table d then Inl Unmodelled
      else if map_of d ''time'' \<noteq> None \<and> map_of d ''time'' \<noteq> Some key then Inl Unmodelled
      else Inr (table\<lparr>rows :=
                  map (\<lambda>r. if IntV (time r) = key then set_values d r else r) (rows table)\<rparr>))"

text \<open>
  A \<^verbatim>\<open>select\<close> with its optional \<^verbatim>\<open>where\<close>, \<^verbatim>\<open>order_by\<close> on the time column and
  \<^verbatim>\<open>limit\<close>. \<^verbatim>\<open>between\<close> is SQL's inclusive \<^verbatim>\<open>BETWEEN\<close>.
\<close>

datatype whereclause = Between int int | GreaterEq int | LessEq int

datatype ordering = Asc | Desc

record query =
  q_columns :: "string list"
  q_order :: "ordering option"
  q_where :: "whereclause option"
  q_limit :: "nat option"

fun where_holds :: "whereclause \<Rightarrow> int \<Rightarrow> bool" where
  "where_holds (Between lo hi) t = (lo \<le> t \<and> t \<le> hi)"
| "where_holds (GreaterEq lo) t = (lo \<le> t)"
| "where_holds (LessEq hi) t = (t \<le> hi)"

definition execute_select :: "ptable \<Rightarrow> query \<Rightarrow> row list" where
  "execute_select table q =
     (let selected = (case q_where q of None \<Rightarrow> rows table
                      | Some w \<Rightarrow> filter (\<lambda>r. where_holds w (time r)) (rows table));
          ordered = (case q_order q of None \<Rightarrow> selected
                     | Some Asc \<Rightarrow> sort_key time selected
                     | Some Desc \<Rightarrow> rev (sort_key time selected))
      in case q_limit q of None \<Rightarrow> ordered | Some n \<Rightarrow> take n ordered)"

text \<open>
  Identifiers in the text of a statement. A name can stand unquoted when it is made of
  letters, digits, \<^verbatim>\<open>_\<close> and \<^verbatim>\<open>$\<close>, not of digits alone, and is no reserved word of the
  store's grammar; the reserved words (in lower case) are a parameter. The store compares
  column names without regard to case.
\<close>

definition lower_char :: "char \<Rightarrow> char" where
  "lower_char c =
     (case map_of (zip ''ABCDEFGHIJKLMNOPQRSTUVWXYZ'' ''abcdefghijklmnopqrstuvwxyz'') c of
        None \<Rightarrow> c | Some l \<Rightarrow> l)"

definition lower :: "string \<Rightarrow> string" where
  "lower s = map lower_char s"

definition identifier_char :: "char \<Rightarrow> bool" where
  "identifier_char c =
     (c \<in> set ''abcdefghijklmnopqrstuvwxyzABCDEFGHIJKLMNOPQRSTUVWXYZ0123456789_$'')"

definition digit_char :: "char \<Rightarrow> bool" where
  "digit_char c = (c \<in> set ''0123456789'')"

definition plain_identifier :: "string list \<Rightarrow> string \<Rightarrow> bool" where
  "plain_identifier reserved name' =
     (name' \<noteq> [] \<and> list_all identifier_char name' \<and> \<not> list_all digit_char name' \<and>
      lower name' \<notin> set reserved)"

text \<open>
  \<^verbatim>\<open>_add_column\<close>: the statement \<^verbatim>\<open>'ALTER TABLE %s ADD COLUMN %s %s'\<close> is put together
  from the table's name as it is, and from the column's name and type as the dialect
  compiles them (the column's name quoted where it must be), and run on the engine
  directly. A table name that cannot stand unquoted makes the text another statement
  than the intended one, which the store refuses (\<^verbatim>\<open>ProgrammingError\<close>). The store also
  refuses a column name the table already has, in any case of its letters
  (\<^verbatim>\<open>OperationalError\<close>). Otherwise the column is appended and reads \<^verbatim>\<open>NULL\<close> in every
  existing row.
\<close>

definition add_column ::
  "string list \<Rightarrow> store \<Rightarrow> string \<Rightarrow> string \<Rightarrow> sqltype \<Rightarrow> error + store" where
  "add_column reserved db table_name c ty =
     (if \<not> plain_identifier reserved table_name then Inl ProgrammingError
      else case db table_name of
        None \<Rightarrow> Inl ProgrammingError
      | Some table \<Rightarrow>
          if lower c \<in> set (map lower (column_names table)) then Inl OperationalError
          else Inr (db(table_name \<mapsto>
                 table\<lparr>device_columns := device_columns table @ [(c, ty)],
                       rows := map (\<lambda>r. r\<lparr>cells := (cells r)(c := NoneV)\<rparr>) (rows table)\<rparr>)))"

section \<open>SafeSession\<close>

text \<open>
  \<^verbatim>\<open>SafeSession.__exit__\<close> calls methods of the underlying session. What those methods do
  is the library's business; the model records which calls are made, in order, and takes
  the outcome of \<^verbatim>\<open>commit\<close> and \<^verbatim>\<open>rollback\<close> (return, or raise an exception) as given.
  The result is the trace of calls and the exception that leaves \<^verbatim>\<open>__exit__\<close>, if any.
\<close>

datatype event = Commit | Rollback | Close | Log

record session_outcomes =
  commit_raises :: "error option"
  rollback_raises :: "error option"

definition safe_session_exit :: "session_outcomes \<Rightarrow> event list \<times> error option" where
  "safe_session_exit s =
     (case commit_raises s of
        None \<Rightarrow> ([Commit, Close], None)
      | Some InvalidRequestError \<Rightarrow>
          (case rollback_raises s of
             None \<Rightarrow> ([Commit, Log, Rollback, Log, Close], None)
           | Some e \<Rightarrow> ([Commit, Log, Rollback], Some e))
      | Some e \<Rightarrow> ([Commit], Some e))"

section \<open>DatabaseOperator\<close>

subsection \<open>get_size\<close>

text \<open>
  The three fields that \<^verbatim>\<open>__init__\<close> sets for the size cache. \<^verbatim>\<open>get_size\<close> reads the clock
  twice (\<open>now\<close> for the test, \<open>now'\<close> for the new timestamp) and, when it recomputes,
  takes the first row of the aggregate query, \<open>(db_name, db_size_mb)\<close>; no row makes
  \<^verbatim>\<open>responce.first()[1]\<close> raise. Clock readings are reals.
\<close>

record size_cache =
  last_get_size_time :: real
  size_update_time :: real
  cached_db_size :: val

definition init_size_cache :: size_cache where
  "init_size_cache =
     \<lparr>last_get_size_time = 0, size_update_time = 60 * 60 * 3, cached_db_size = NoneV\<rparr>"

definition get_size ::
  "real \<Rightarrow> real \<Rightarrow> (string \<times> val) option \<Rightarrow> size_cache \<Rightarrow> (error + val) \<times> size_cache" where
  "get_size now now' first_row s =
     (if now > last_get_size_time s + size_update_time s then
        (case first_row of
           None \<Rightarrow> (Inl TypeError, s)
         | Some responce \<Rightarrow>
             (let size_of_database_in_mb = snd responce
              in (Inr size_of_database_in_mb,
                  s\<lparr>last_get_size_time := now', cached_db_size := size_of_database_in_mb\<rparr>)))
      else (Inr (cached_db_size s), s))"

subsection \<open>_insert_in_session\<close>

text \<open>
  The insert is tried first; only \<^verbatim>\<open>IntegrityError\<close> is caught, and then the row with the
  record's \<^verbatim>\<open>time\<close> is updated. \<^verbatim>\<open>column_values_dict['time']\<close> raises \<^verbatim>\<open>KeyError\<close> on a
  record without that key. The statements act on the store at once: the enclosing
  session commits on exit.
\<close>

definition insert_in_session :: "store \<Rightarrow> string \<Rightarrow> val dict \<Rightarrow> error + store" where
  "insert_in_session db table_name column_values_dict =
     (case Table db table_name of
        Inl e \<Rightarrow> Inl e
      | Inr table \<Rightarrow>
          (case execute_insert table column_values_dict of
             Inr table' \<Rightarrow> Inr (db(table_name \<mapsto> table'))
           | Inl IntegrityError \<Rightarrow>
               (case map_of column_values_dict ''time'' of
                  None \<Rightarrow> Inl KeyError
                | Some key \<Rightarrow>
                    (case execute_update table key column_values_dict of
                       Inl e \<Rightarrow> Inl e
                     | Inr table' \<Rightarrow> Inr (db(table_name \<mapsto> table'))))
           | Inl e \<Rightarrow> Inl e))"

subsection \<open>alter_table\<close>

text \<open>
  \<open>existing_column_names\<close> is computed once, before the loop. The loop stops at the first
  statement that raises; the columns added before stay, since \<^verbatim>\<open>ALTER TABLE\<close> is not
  undone. Of all exceptions only \<^verbatim>\<open>NoSuchTableError\<close> is swallowed. The model is that of
  a call on an operator whose metadata holds no earlier reflection of the table, so that
  the existing columns are those of the store.
\<close>

fun alter_loop ::
  "string list \<Rightarrow> store \<Rightarrow> string \<Rightarrow> string list \<Rightarrow> string list \<Rightarrow> sqltype \<Rightarrow>
     store \<times> error option" where
  "alter_loop reserved db table_name existing_column_names [] ty = (db, None)"
| "alter_loop reserved db table_name existing_column_names (dev # devs) ty =
     (if dev \<notin> set existing_column_names then
        (case add_column reserved db table_name dev ty of
           Inl e \<Rightarrow> (db, Some e)
         | Inr db' \<Rightarrow> alter_loop reserved db' table_name existing_column_names devs ty)
      else alter_loop reserved db table_name existing_column_names devs ty)"

definition alter_table ::
  "string list \<Rightarrow> store \<Rightarrow> string \<Rightarrow> string list \<Rightarrow> sqltype \<Rightarrow> store \<times> error option" where
  "alter_table reserved db table_name column_names' ty =
     (case Table db table_name of
        Inl e \<Rightarrow> (db, if e = NoSuchTableError then None else Some e)
      | Inr table \<Rightarrow>
          (let existing_column_names = map fst (columns table);
               (db', raised) =
                 alter_loop reserved db table_name existing_column_names column_names' ty
           in (db', if raised = Some NoSuchTableError then None else raised)))"

section \<open>CollectedDataOperator\<close>

subsection \<open>get_data_to_save\<close>

text \<open>
  The device and parameter classes live in another module; the fields read here are the
  names, the parameter's value and its \<^verbatim>\<open>last_collected\<close> time. \<^verbatim>\<open>params_dict\<close> is a dict
  from a key to the parameter object; the loop walks its values. \<open>save_param\<close> is the
  body of the inner loop and \<open>save_device\<close> the body of the outer one.
\<close>

record param =
  param_name :: string
  param_value :: val
  last_collected :: int

record device =
  device_name :: string
  params_dict :: "param dict"

definition save_param ::
  "int \<Rightarrow> bool \<Rightarrow> device \<Rightarrow> param \<Rightarrow> val dict dict \<Rightarrow> val dict dict" where
  "save_param cur_time do_time_check dev p data_to_save =
     (if do_time_check \<and> last_collected p \<noteq> cur_time \<and> param_name p \<noteq> ''online''
      then data_to_save
      else
        (let data1 = (if map_of data_to_save (param_name p) = None
                      then AList.update (param_name p) [(''time'', IntV cur_time)] data_to_save
                      else data_to_save);
             record = (case map_of data1 (param_name p) of None \<Rightarrow> [] | Some r \<Rightarrow> r)
         in AList.update (param_name p)
              (AList.update (device_name dev) (param_value p) record) data1))"

definition save_device ::
  "int \<Rightarrow> bool \<Rightarrow> device \<Rightarrow> val dict dict \<Rightarrow> val dict dict" where
  "save_device cur_time do_time_check dev data_to_save =
     fold (save_param cur_time do_time_check dev) (map snd (params_dict dev)) data_to_save"

definition get_data_to_save :: "int \<Rightarrow> device list \<Rightarrow> bool \<Rightarrow> val dict dict" where
  "get_data_to_save cur_time given_devices do_time_check =
     fold (save_device cur_time do_time_check) given_devices []"

subsection \<open>save_data\<close>

text \<open>
  One session for all records. An exception leaves the loop; the session's exit still
  commits what was executed before, so the store keeps the earlier records.
\<close>

fun save_loop :: "store \<Rightarrow> val dict dict \<Rightarrow> store \<times> error option" where
  "save_loop db [] = (db, None)"
| "save_loop db ((param_name', record) # rest) =
     (case insert_in_session db param_name' record of
        Inl e \<Rightarrow> (db, Some e)
      | Inr db' \<Rightarrow> save_loop db' rest)"

definition save_data :: "store \<Rightarrow> int \<Rightarrow> device list \<Rightarrow> bool \<Rightarrow> store \<times> error option" where
  "save_data db cur_time given_devices do_time_check =
     save_loop db (get_data_to_save cur_time given_devices do_time_check)"

subsection \<open>Reading\<close>

text \<open>Python's truth test on an optional integer: \<^verbatim>\<open>None\<close> and \<^verbatim>\<open>0\<close> are false.\<close>

fun truthy :: "int option \<Rightarrow> bool" where
  "truthy None = False"
| "truthy (Some n) = (n \<noteq> 0)"

text \<open>\<^verbatim>\<open>table.columns[device_name]\<close> raises \<^verbatim>\<open>KeyError\<close> for a name that is no column.\<close>

definition get_query_according_to_times ::
  "ptable \<Rightarrow> string \<Rightarrow> int option \<Rightarrow> int option \<Rightarrow> error + query" where
  "get_query_according_to_times table device_name' begin_time end_time =
     (if device_name' \<notin> set (column_names table) then Inl KeyError
      else
        (let query = \<lparr>q_columns = [''time'', device_name'], q_order = Some Desc,
                      q_where = None, q_limit = None\<rparr>
         in Inr (if truthy begin_time \<and> truthy end_time
                 then query\<lparr>q_where := Some (Between (the begin_time) (the end_time))\<rparr>
                 else if truthy begin_time
                 then query\<lparr>q_where := Some (GreaterEq (the begin_time))\<rparr>
                 else if truthy end_time
                 then query\<lparr>q_where := Some (LessEq (the end_time))\<rparr>
                 else query)))"

text \<open>\<^verbatim>\<open>if isinstance(value, Decimal): value = float(value)\<close>\<close>

fun float_if_decimal :: "val \<Rightarrow> val" where
  "float_if_decimal (DecimalV x) = FloatV x"
| "float_if_decimal v = v"

definition get_times_values ::
  "store \<Rightarrow> string \<Rightarrow> string \<Rightarrow> int option \<Rightarrow> int option \<Rightarrow> error + (int \<times> val) list" where
  "get_times_values db device_name' parameter_name begin_time end_time =
     (case Table db parameter_name of
        Inl e \<Rightarrow> Inl e
      | Inr table \<Rightarrow>
          (case get_query_according_to_times table device_name' begin_time end_time of
             Inl e \<Rightarrow> Inl e
           | Inr query \<Rightarrow>
               Inr (map (\<lambda>r. (time r, float_if_decimal (cell r device_name')))
                      (execute_select table query))))"

definition get_last_data ::
  "store \<Rightarrow> string \<Rightarrow> string \<Rightarrow> nat \<Rightarrow> error + (int \<times> val) list" where
  "get_last_data db device_name' parameter_name limit =
     (case Table db parameter_name of
        Inl e \<Rightarrow> Inl e
      | Inr table \<Rightarrow>
          if device_name' \<notin> set (column_names table) then Inl KeyError
          else
            (let query = \<lparr>q_columns = [''time'', device_name'], q_order = Some Desc,
                          q_where = None, q_limit = Some limit\<rparr>
             in Inr (map (\<lambda>r. (time r, float_if_decimal (cell r device_name')))
                       (execute_select table query))))"

text \<open>\<^verbatim>\<open>row_list[0][0]\<close> and \<^verbatim>\<open>row_list[-1][0]\<close> raise \<^verbatim>\<open>IndexError\<close> on an empty list.\<close>

definition get_time_interval :: "store \<Rightarrow> string \<Rightarrow> error + (int \<times> int)" where
  "get_time_interval db table_name =
     (case Table db table_name of
        Inl e \<Rightarrow> Inl e
      | Inr table \<Rightarrow>
          (let row_list = map time (execute_select table
                  \<lparr>q_columns = [''time''], q_order = Some Asc, q_where = None, q_limit = None\<rparr>)
           in if row_list = [] then Inl IndexError
              else Inr (hd row_list, last row_list)))"

section \<open>Reference definitions and a running example\<close>

text \<open>
  What an upsert keyed by \<^verbatim>\<open>time\<close> does to the rows of a table, in the words of the
  specification: a row with that time takes the new values in place, otherwise the
  record becomes a new row.
\<close>

definition upsert_rows :: "int \<Rightarrow> val dict \<Rightarrow> row list \<Rightarrow> row list" where
  "upsert_rows k d rs =
     (if k \<in> time ` set rs then map (\<lambda>r. if time r = k then set_values d r else r) rs
      else rs @ [new_row k d])"

text \<open>The table of the class docstring of \<^verbatim>\<open>CollectedDataOperator\<close>, in a store of its own.\<close>

definition example_table :: ptable where
  "example_table =
     \<lparr>device_columns = [(''Dev01'', TNumeric 10 2), (''Dev02'', TNumeric 10 2)],
      rows = [new_row 1230 [(''time'', IntV 1230), (''Dev01'', DecimalV 0), (''Dev02'', DecimalV (7 / 2))],
              new_row 1235 [(''time'', IntV 1235), (''Dev01'', DecimalV (3 / 10)), (''Dev02'', DecimalV (33 / 10))]]\<rparr>"

definition example_store :: store where
  "example_store = [''Parameter 1'' \<mapsto> example_table]"

text \<open>
  What a read returns for a set of rows: the pairs of time and the device's value, most
  recent first, a stored decimal as a float.
\<close>

definition pairs_desc :: "string \<Rightarrow> row list \<Rightarrow> (int \<times> val) list" where
  "pairs_desc dn rs = map (\<lambda>r. (time r, float_if_decimal (cell r dn))) (rev (sort_key time rs))"

text \<open>
  A table after the columns \<open>added\<close> of type \<open>ty\<close> were appended to it: the columns it had
  stay in front, every row keeps its time and its values, and reads \<^verbatim>\<open>NULL\<close> in the
  added columns.
\<close>

definition extend_table :: "ptable \<Rightarrow> string list \<Rightarrow> sqltype \<Rightarrow> ptable" where
  "extend_table table added ty =
     table\<lparr>device_columns := device_columns table @ map (\<lambda>c. (c, ty)) added,
           rows := map (\<lambda>r. r\<lparr>cells := (\<lambda>c. if c \<in> set added then NoneV else cells r c)\<rparr>)
                     (rows table)\<rparr>"

text \<open>
  The readings of a device list, device by device, and the test that a reading is kept:
  with the time check on, a parameter collected at the current time or named
  \<^verbatim>\<open>online\<close>; with the time check off, every parameter.
\<close>

definition readings :: "device list \<Rightarrow> (device \<times> param) list" where
  "readings devs = concat (map (\<lambda>d. map (Pair d) (map snd (params_dict d))) devs)"

definition included :: "bool \<Rightarrow> int \<Rightarrow> param \<Rightarrow> bool" where
  "included do_time_check cur_time p =
     (if do_time_check then last_collected p = cur_time \<or> param_name p = ''online'' else True)"

text \<open>A dict of dicts read as a map of maps.\<close>

definition view :: "val dict dict \<Rightarrow> string \<Rightarrow> (string \<rightharpoonup> val) option" where
  "view data pn = map_option map_of (map_of data pn)"

text \<open>Two devices for the examples: the second one's reading is stale at time 1212.\<close>

definition example_devices :: "device list" where
  "example_devices =
     [\<lparr>device_name = ''Dev01'',
       params_dict =
         [(''CpuTemp1'', \<lparr>param_name = ''CpuTemp1'', param_value = FloatV (1 / 5),
                          last_collected = 1212\<rparr>),
          (''online'', \<lparr>param_name = ''online'', param_value = BoolV True,
                        last_collected = 1000\<rparr>)]\<rparr>,
      \<lparr>device_name = ''Dev02'',
       params_dict =
         [(''CpuTemp1'', \<lparr>param_name = ''CpuTemp1'', param_value = FloatV (3 / 10),
                          last_collected = 1200\<rparr>)]\<rparr>]"

text \<open>A dict of dicts has each key once, on both levels.\<close>

definition dict_ok :: "val dict dict \<Rightarrow> bool" where
  "dict_ok data = (distinct (map fst data) \<and> list_all (\<lambda>kv. distinct (map fst (snd kv))) data)"

text \<open>A store with an empty table for each parameter of the example devices.\<close>

definition cpu_temp_table :: ptable where
  "cpu_temp_table = \<lparr>device_columns = [(''Dev01'', TNumeric 10 2), (''Dev02'', TNumeric 10 2)], rows = []\<rparr>"

definition online_table :: ptable where
  "online_table = \<lparr>device_columns = [(''Dev01'', TBoolean), (''Dev02'', TBoolean)], rows = []\<rparr>"

definition collected_store :: store where
  "collected_store = [''CpuTemp1'' \<mapsto> cpu_temp_table, ''online'' \<mapsto> online_table]"

section \<open>Resolving a table\<close>

lemma Table_None: "db n = None \<Longrightarrow> Table db n = Inl NoSuchTableError"
  by (simp add: Table_def)

lemma Table_Some: "db n = Some t \<Longrightarrow> Table db n = Inr t"
  by (simp add: Table_def)

section \<open>Writing: insert, or update on conflict\<close>

lemma map_of_filter_key:
  "map_of (filter (\<lambda>kv. P (fst kv)) d) c = (if P c then map_of d c else None)"
  by (induction d) auto

lemma known_values_all:
  "set (map fst d) \<subseteq> set (column_names t) \<Longrightarrow> known_values t d = d"
  by (auto simp: known_values_def filter_id_conv)

lemma time_column: "''time'' \<in> set (column_names t)"
  by (simp add: column_names_def columns_def)

lemma known_values_time: "map_of (known_values t d) ''time'' = map_of d ''time''"
  unfolding known_values_def
  using map_of_filter_key [of "\<lambda>c. c \<in> set (column_names t)" d "''time''"]
  by (simp add: time_column)

lemma insert_fresh:
  assumes "db tn = Some t" "conforms t d"
    "map_of d ''time'' = Some (IntV k)" "k \<notin> time ` set (rows t)"
  shows "insert_in_session db tn d =
           Inr (db(tn \<mapsto> t\<lparr>rows := rows t @ [new_row k (known_values t d)]\<rparr>))"
  using assms by (simp add: insert_in_session_def Table_Some execute_insert_def)

lemma insert_conflict:
  assumes "db tn = Some t" "set (map fst d) \<subseteq> set (column_names t)" "conforms t d"
    "map_of d ''time'' = Some (IntV k)" "k \<in> time ` set (rows t)"
  shows "insert_in_session db tn d =
           Inr (db(tn \<mapsto> t\<lparr>rows := map (\<lambda>r. if time r = k then set_values d r else r) (rows t)\<rparr>))"
  using assms by (simp add: insert_in_session_def Table_Some execute_insert_def execute_update_def)

lemma time_set_values: "map_of d ''time'' = Some (IntV k) \<Longrightarrow> time (set_values d r) = k"
  by (simp add: set_values_def)





lemma map_time_upsert:
  assumes "map_of d ''time'' = Some (IntV k)"
  shows "map time (upsert_rows k d rs) = (if k \<in> time ` set rs then map time rs else map time rs @ [k])"
proof -
  have "map (time \<circ> (\<lambda>r. if time r = k then set_values d r else r)) rs = map time rs"
    by (rule map_cong) (auto simp: time_set_values [OF assms])
  then show ?thesis by (simp add: upsert_rows_def new_row_def)
qed








lemma insert_in_session_step:
  assumes "db tn = Some t" "set (map fst d) \<subseteq> set (column_names t)" "conforms t d"
    "map_of d ''time'' = Some (IntV k)"
  shows "insert_in_session db tn d = Inr (db(tn \<mapsto> t\<lparr>rows := upsert_rows k d (rows t)\<rparr>))"
proof (cases "k \<in> time ` set (rows t)")
  case True
  with assms insert_conflict [of db tn t d k] show ?thesis by (simp add: upsert_rows_def)
next
  case False
  with assms insert_fresh [of db tn t d k] show ?thesis
    by (simp add: upsert_rows_def known_values_all)
qed



section \<open>Reading\<close>

lemma sorted_hd_Min: "sorted (xs::int list) \<Longrightarrow> xs \<noteq> [] \<Longrightarrow> hd xs = Min (set xs)"
  by (cases xs) (auto intro!: Min_eqI [symmetric])

lemma sorted_last_Max: "sorted (xs::int list) \<Longrightarrow> xs \<noteq> [] \<Longrightarrow> last xs = Max (set xs)"
  by (induction xs) (auto intro!: Max_eqI [symmetric] simp: max_def)

lemma map_insort_key: "map f (insort_key f x xs) = insort (f x) (map f xs)"
  by (induction xs) auto

lemma map_sort_key: "map f (sort_key f xs) = sort (map f xs)"
  by (induction xs) (simp_all add: map_insort_key)

lemma select_asc:
  "map time (execute_select t \<lparr>q_columns = cs, q_order = Some Asc, q_where = None, q_limit = None\<rparr>)
     = sort (map time (rows t))"
  by (simp add: execute_select_def map_sort_key)

lemma interval_sorted:
  assumes "db tn = Some t" "rows t \<noteq> []"
  shows "get_time_interval db tn = Inr (hd (sort (map time (rows t))), last (sort (map time (rows t))))"
proof -
  have "sort (map time (rows t)) \<noteq> []"
    using assms(2) by (metis length_sort length_map length_0_conv)
  then show ?thesis
    using assms by (simp add: get_time_interval_def Table_Some select_asc Let_def)
qed

lemma interval_Min_Max:
  assumes "db tn = Some t" "rows t \<noteq> []"
  shows "get_time_interval db tn = Inr (Min (time ` set (rows t)), Max (time ` set (rows t)))"
proof -
  let ?xs = "sort (map time (rows t))"
  have ne: "?xs \<noteq> []" using assms(2) by (metis length_sort length_map length_0_conv)
  have "hd ?xs = Min (set ?xs)" "last ?xs = Max (set ?xs)"
    using ne by (simp_all add: sorted_hd_Min sorted_last_Max)
  then show ?thesis using interval_sorted [of db tn t] assms by simp
qed

lemma set_time_upsert:
  "map_of d ''time'' = Some (IntV k) \<Longrightarrow> time ` set (upsert_rows k d rs) = insert k (time ` set rs)"
proof -
  assume a: "map_of d ''time'' = Some (IntV k)"
  have "set (map time (upsert_rows k d rs)) = insert k (set (map time rs))"
    unfolding map_time_upsert [OF a] by auto
  then show ?thesis by simp
qed

text \<open>
  Claim C10. On a table that exists and has no row, \<^verbatim>\<open>get_time_interval\<close> raises
  \<^verbatim>\<open>IndexError\<close>: the row list is indexed at its first element without a test. It
  returns no interval.
\<close>

theorem get_time_interval_empty:
  "db table_name = Some table \<Longrightarrow> rows table = [] \<Longrightarrow>
     get_time_interval db table_name = Inl IndexError"
  by (simp add: get_time_interval_def Table_Some execute_select_def)

theorem get_time_interval_empty_witness:
  "(example_store(''Parameter 1'' \<mapsto> example_table\<lparr>rows := []\<rparr>)) ''Parameter 1''
      = Some (example_table\<lparr>rows := []\<rparr>) \<and>
   rows (example_table\<lparr>rows := []\<rparr>) = [] \<and>
   get_time_interval (example_store(''Parameter 1'' \<mapsto> example_table\<lparr>rows := []\<rparr>)) ''Parameter 1''
      = Inl IndexError"
  using get_time_interval_empty
    [of "example_store(''Parameter 1'' \<mapsto> example_table\<lparr>rows := []\<rparr>)" "''Parameter 1''"
        "example_table\<lparr>rows := []\<rparr>"]
  by simp

text \<open>
  Claim C7. For a parameter name without a table, and any device name, each of
  \<^verbatim>\<open>get_times_values\<close>, \<^verbatim>\<open>get_last_data\<close> and \<^verbatim>\<open>get_time_interval\<close> raises
  \<^verbatim>\<open>NoSuchTableError\<close>; none returns a sequence.
\<close>

theorem read_without_table_raises:
  assumes "db parameter_name = None"
  shows "get_times_values db device_name' parameter_name begin_time end_time = Inl NoSuchTableError \<and>
         get_last_data db device_name' parameter_name limit = Inl NoSuchTableError \<and>
         get_time_interval db parameter_name = Inl NoSuchTableError"
  using assms
  by (simp add: get_times_values_def get_last_data_def get_time_interval_def Table_None)

theorem read_without_table_raises_witness:
  "example_store ''CpuTemp1'' = None \<and>
   get_times_values example_store ''Dev01'' ''CpuTemp1'' None None = Inl NoSuchTableError \<and>
   get_last_data example_store ''Dev01'' ''CpuTemp1'' 1 = Inl NoSuchTableError \<and>
   get_time_interval example_store ''CpuTemp1'' = Inl NoSuchTableError"
proof -
  have h: "example_store ''CpuTemp1'' = None" by (simp add: example_store_def)
  from h read_without_table_raises [of example_store "''CpuTemp1''", OF h] show ?thesis by simp
qed

lemma select_desc:
  "execute_select t \<lparr>q_columns = cs, q_order = Some Desc, q_where = w, q_limit = None\<rparr>
     = rev (sort_key time (case w of None \<Rightarrow> rows t | Some c \<Rightarrow> filter (\<lambda>r. where_holds c (time r)) (rows t)))"
  by (simp add: execute_select_def)

lemma sorted_pairs_desc: "sorted (rev (map fst (pairs_desc dn rs)))"
proof -
  have "rev (map fst (pairs_desc dn rs)) = map time (sort_key time rs)"
    by (simp add: pairs_desc_def rev_map comp_def)
  then show ?thesis by (simp add: sorted_sort_key)
qed

lemma length_pairs_desc: "length (pairs_desc dn rs) = length rs"
  by (simp add: pairs_desc_def)

lemma get_times_values_eq:
  assumes "db pn = Some t" "dn \<in> set (column_names t)"
  shows "get_times_values db dn pn b e =
     Inr (pairs_desc dn
       (if truthy b \<and> truthy e then filter (\<lambda>r. the b \<le> time r \<and> time r \<le> the e) (rows t)
        else if truthy b then filter (\<lambda>r. the b \<le> time r) (rows t)
        else if truthy e then filter (\<lambda>r. time r \<le> the e) (rows t)
        else rows t))"
  using assms
  by (simp add: get_times_values_def Table_Some get_query_according_to_times_def Let_def
      select_desc pairs_desc_def)

text \<open>
  Where no bound is \<open>0\<close>, the filter follows the bounds that are there, for a device
  column of an existing table: both bounds, the rows with \<open>lo \<le> time \<le> hi\<close>; the lower
  bound alone, the rows with \<open>lo \<le> time\<close>; the upper bound alone, the rows with
  \<open>time \<le> hi\<close>; neither, all rows; always in descending order of time.
\<close>

lemma get_times_values_range:
  assumes "db parameter_name = Some table" and "dn \<in> set (column_names table)"
    and "dn \<noteq> ''time''" and "b \<noteq> Some 0" and "e \<noteq> Some 0"
  shows "\<exists>res. get_times_values db dn parameter_name b e = Inr res \<and>
           sorted (rev (map fst res)) \<and>
           (b = Some lo \<and> e = Some hi \<longrightarrow>
              res = pairs_desc dn (filter (\<lambda>r. lo \<le> time r \<and> time r \<le> hi) (rows table))) \<and>
           (b = Some lo \<and> e = None \<longrightarrow>
              res = pairs_desc dn (filter (\<lambda>r. lo \<le> time r) (rows table))) \<and>
           (b = None \<and> e = Some hi \<longrightarrow>
              res = pairs_desc dn (filter (\<lambda>r. time r \<le> hi) (rows table))) \<and>
           (b = None \<and> e = None \<longrightarrow> res = pairs_desc dn (rows table))"
  unfolding get_times_values_eq [of db parameter_name table dn, OF assms(1,2)]
  using assms(4,5) by (auto simp: sorted_pairs_desc)

text \<open>
  Claim C2. The claim takes a bound for given when it is not \<^verbatim>\<open>None\<close>: both bounds given,
  the inclusive range; only one given, that one comparison; none given, all rows; the
  result in descending order of time. \<^verbatim>\<open>get_query_according_to_times\<close> tests the bounds
  for truth instead, and departs from the claim at a bound \<open>0\<close>. On the table of the
  example, the upper bound \<open>0\<close> alone returns the rows of time 1235 and 1230, where the
  claim lets through the times up to \<open>0\<close> only; the bounds 1233 and \<open>0\<close> return the row of
  time 1235, where no time lies in the range and the docstring of \<^verbatim>\<open>get_times_values\<close>
  promises \<open>begin_time \<le> time \<le> end_time\<close>.
\<close>

theorem get_times_values_zero_end_bound:
  "get_times_values example_store ''Dev01'' ''Parameter 1'' None (Some 0)
     = Inr [(1235, FloatV (3 / 10)), (1230, FloatV 0)] \<and>
   get_times_values example_store ''Dev01'' ''Parameter 1'' (Some 1233) (Some 0)
     = Inr [(1235, FloatV (3 / 10))] \<and>
   \<not> (1235::int) \<le> 0"
  by (simp add: get_times_values_def Table_def example_store_def get_query_according_to_times_def
      execute_select_def example_table_def column_names_def columns_def new_row_def cell_def)

text \<open>
  Claim C9. A bound that is \<open>0\<close> is treated as absent by \<^verbatim>\<open>get_times_values\<close>: the lower
  bound \<open>0\<close> with a non-zero upper bound selects the rows with \<open>time \<le> hi\<close> only; both
  bounds \<open>0\<close> select every row of the table; and in general the result with a bound \<open>0\<close>
  is the result with that bound \<^verbatim>\<open>None\<close>.
\<close>

theorem zero_bound_is_absent:
  assumes "db parameter_name = Some table" and "dn \<in> set (column_names table)"
  shows "(hi \<noteq> 0 \<longrightarrow> get_times_values db dn parameter_name (Some 0) (Some hi)
            = Inr (pairs_desc dn (filter (\<lambda>r. time r \<le> hi) (rows table)))) \<and>
         get_times_values db dn parameter_name (Some 0) (Some 0) = Inr (pairs_desc dn (rows table)) \<and>
         length (pairs_desc dn (rows table)) = length (rows table) \<and>
         get_times_values db dn parameter_name (Some 0) e = get_times_values db dn parameter_name None e \<and>
         get_times_values db dn parameter_name b (Some 0) = get_times_values db dn parameter_name b None"
  unfolding get_times_values_eq [of db parameter_name table dn, OF assms]
  by (simp add: length_pairs_desc)

theorem zero_bound_is_absent_witness:
  "example_store ''Parameter 1'' = Some example_table \<and>
   ''Dev01'' \<in> set (column_names example_table) \<and>
   get_times_values example_store ''Dev01'' ''Parameter 1'' (Some 0) (Some 1232)
     = Inr [(1230, FloatV 0)] \<and>
   get_times_values example_store ''Dev01'' ''Parameter 1'' (Some 0) (Some 0)
     = Inr [(1235, FloatV (3 / 10)), (1230, FloatV 0)]"
proof -
  have h1: "example_store ''Parameter 1'' = Some example_table"
    by (simp add: example_store_def)
  have h2: "''Dev01'' \<in> set (column_names example_table)"
    by (simp add: example_table_def column_names_def columns_def)
  have a: "pairs_desc ''Dev01'' (filter (\<lambda>r. time r \<le> 1232) (rows example_table)) = [(1230, FloatV 0)]"
    by (simp add: pairs_desc_def example_table_def new_row_def cell_def)
  have b: "pairs_desc ''Dev01'' (rows example_table) = [(1235, FloatV (3 / 10)), (1230, FloatV 0)]"
    by (simp add: pairs_desc_def example_table_def new_row_def cell_def)
  from zero_bound_is_absent [of example_store "''Parameter 1''" example_table "''Dev01''" 1232 None None,
      OF h1 h2]
    a b h1 h2
  show ?thesis by simp
qed

section \<open>Leaving a session\<close>

text \<open>
  Claim C5, amended. \<^verbatim>\<open>SafeSession.__exit__\<close> attempts the commit first. When the commit
  returns, the session is closed. When the commit raises \<^verbatim>\<open>InvalidRequestError\<close>, the
  failure is logged and the rollback is called; when the rollback returns, the session is
  closed and no exception leaves \<^verbatim>\<open>__exit__\<close>.
\<close>

theorem safe_session_exit_paths:
  "hd (fst (safe_session_exit s)) = Commit \<and>
   (commit_raises s = None \<longrightarrow> safe_session_exit s = ([Commit, Close], None)) \<and>
   (commit_raises s = Some InvalidRequestError \<longrightarrow>
      take 3 (fst (safe_session_exit s)) = [Commit, Log, Rollback]) \<and>
   (commit_raises s = Some InvalidRequestError \<and> rollback_raises s = None \<longrightarrow>
      safe_session_exit s = ([Commit, Log, Rollback, Log, Close], None))"
  by (simp add: safe_session_exit_def split: option.split error.split)

theorem safe_session_exit_paths_witness:
  "commit_raises \<lparr>commit_raises = Some InvalidRequestError, rollback_raises = None\<rparr>
     = Some InvalidRequestError \<and>
   rollback_raises \<lparr>commit_raises = Some InvalidRequestError, rollback_raises = None\<rparr> = None \<and>
   safe_session_exit \<lparr>commit_raises = Some InvalidRequestError, rollback_raises = None\<rparr>
     = ([Commit, Log, Rollback, Log, Close], None) \<and>
   commit_raises \<lparr>commit_raises = None, rollback_raises = None\<rparr> = None \<and>
   safe_session_exit \<lparr>commit_raises = None, rollback_raises = None\<rparr> = ([Commit, Close], None)"
  using safe_session_exit_paths [of "\<lparr>commit_raises = Some InvalidRequestError, rollback_raises = None\<rparr>"]
    safe_session_exit_paths [of "\<lparr>commit_raises = None, rollback_raises = None\<rparr>"]
  by simp

text \<open>
  Claim C5 as written fails when the commit raises another exception than
  \<^verbatim>\<open>InvalidRequestError\<close>, and when the rollback raises: the exception leaves \<^verbatim>\<open>__exit__\<close>
  before \<^verbatim>\<open>self.close()\<close> is reached, and in the first case no rollback is called.
\<close>

theorem safe_session_exit_unclosed_counterexample:
  "safe_session_exit \<lparr>commit_raises = Some OperationalError, rollback_raises = None\<rparr>
     = ([Commit], Some OperationalError) \<and>
   Close \<notin> set [Commit] \<and> Rollback \<notin> set [Commit] \<and>
   safe_session_exit \<lparr>commit_raises = Some InvalidRequestError, rollback_raises = Some OperationalError\<rparr>
     = ([Commit, Log, Rollback], Some OperationalError) \<and>
   Close \<notin> set [Commit, Log, Rollback]"
  by (simp add: safe_session_exit_def)

section \<open>The size cache\<close>

text \<open>
  Claim C8. The refresh interval set by \<^verbatim>\<open>__init__\<close> is 10800 seconds. A call of
  \<^verbatim>\<open>get_size\<close> whose clock reading is later than the stored timestamp plus the interval
  recomputes: it returns the size the query reports and stores that size and the new
  timestamp. A second call whose clock reading is within the interval of the timestamp
  stored by that recomputation returns the same value, whatever the query would report
  now, and leaves the cache as it is.
\<close>

theorem get_size_cached:
  "size_update_time init_size_cache = 10800 \<and>
   (last_get_size_time s + size_update_time s < now \<longrightarrow>
      get_size now now' (Some (n, m)) s
        = (Inr m, s\<lparr>last_get_size_time := now', cached_db_size := m\<rparr>)) \<and>
   (last_get_size_time s + size_update_time s < now \<and> now2 \<le> now' + size_update_time s \<longrightarrow>
      get_size now2 now2' row2 (snd (get_size now now' (Some (n, m)) s))
        = (Inr m, snd (get_size now now' (Some (n, m)) s)) \<and>
      fst (get_size now now' (Some (n, m)) s) = Inr m)"
  by (simp add: get_size_def init_size_cache_def)

theorem get_size_cached_witness:
  "last_get_size_time init_size_cache + size_update_time init_size_cache < 1000000 \<and>
   (1005000::real) \<le> 1000001 + size_update_time init_size_cache \<and>
   get_size 1000000 1000001 (Some (''nms'', DecimalV 12)) init_size_cache
     = (Inr (DecimalV 12),
        init_size_cache\<lparr>last_get_size_time := 1000001, cached_db_size := DecimalV 12\<rparr>) \<and>
   get_size 1005000 1005001 (Some (''nms'', DecimalV 15))
       (snd (get_size 1000000 1000001 (Some (''nms'', DecimalV 12)) init_size_cache))
     = (Inr (DecimalV 12), snd (get_size 1000000 1000001 (Some (''nms'', DecimalV 12)) init_size_cache))"
proof -
  have h1: "last_get_size_time init_size_cache + size_update_time init_size_cache < 1000000"
    and h2: "(1005000::real) \<le> 1000001 + size_update_time init_size_cache"
    by (simp_all add: init_size_cache_def)
  from get_size_cached [of init_size_cache 1000000 1000001 "''nms''" "DecimalV 12" 1005000 1005001
      "Some (''nms'', DecimalV 15)"] h1 h2
  show ?thesis by (elim conjE) simp
qed

section \<open>Adding columns\<close>

lemma extend_table_Nil: "extend_table t [] ty = t"
  by (simp add: extend_table_def)

lemma extend_table_Cons: "extend_table (extend_table t [c] ty) cs ty = extend_table t (c # cs) ty"
  by (auto simp: extend_table_def fun_eq_iff)

lemma column_names_extend: "column_names (extend_table t cs ty) = column_names t @ cs"
  by (simp add: extend_table_def column_names_def columns_def comp_def)

lemma add_column_Inr:
  assumes "add_column reserved db tn c ty = Inr db'" and "db tn = Some t"
  shows "c \<notin> set (column_names t) \<and> db' = db(tn \<mapsto> extend_table t [c] ty)"
proof -
  from assms have low: "lower c \<notin> set (map lower (column_names t))"
    and db': "db' = db(tn \<mapsto>
                 t\<lparr>device_columns := device_columns t @ [(c, ty)],
                   rows := map (\<lambda>r. r\<lparr>cells := (cells r)(c := NoneV)\<rparr>) (rows t)\<rparr>)"
    by (auto simp: add_column_def split: if_splits)
  from low have "c \<notin> set (column_names t)" by auto
  moreover have "t\<lparr>device_columns := device_columns t @ [(c, ty)],
                   rows := map (\<lambda>r. r\<lparr>cells := (cells r)(c := NoneV)\<rparr>) (rows t)\<rparr>
                 = extend_table t [c] ty"
    by (auto simp: extend_table_def fun_upd_def fun_eq_iff)
  ultimately show ?thesis using db' by simp
qed

lemma add_column_table_stays: "add_column reserved db tn c ty \<noteq> Inl NoSuchTableError"
  by (simp add: add_column_def split: option.split)

lemma alter_loop_extend:
  assumes "db tn = Some t"
  shows "\<exists>added. fst (alter_loop reserved db tn ex cols ty) = db(tn \<mapsto> extend_table t added ty) \<and>
           distinct added \<and> set added \<subseteq> set cols - set ex - set (column_names t) \<and>
           snd (alter_loop reserved db tn ex cols ty) \<noteq> Some NoSuchTableError"
  using assms
proof (induction cols arbitrary: db t)
  case Nil
  have "db(tn \<mapsto> extend_table t [] ty) = db"
    using Nil by (simp add: extend_table_Nil map_upd_triv)
  then show ?case by (intro exI [of _ "[]"]) simp
next
  case (Cons dev devs)
  show ?case
  proof (cases "dev \<in> set ex")
    case True
    from Cons.IH [of db t] Cons.prems obtain added where
      a: "fst (alter_loop reserved db tn ex devs ty) = db(tn \<mapsto> extend_table t added ty)"
        "distinct added" "set added \<subseteq> set devs - set ex - set (column_names t)"
        "snd (alter_loop reserved db tn ex devs ty) \<noteq> Some NoSuchTableError"
      by blast
    show ?thesis
      using True a by (intro exI [of _ added]) auto
  next
    case False
    show ?thesis
    proof (cases "add_column reserved db tn dev ty")
      case (Inl e)
      have "db(tn \<mapsto> extend_table t [] ty) = db"
        using Cons.prems by (simp add: extend_table_Nil map_upd_triv)
      moreover have "e \<noteq> NoSuchTableError"
        using Inl add_column_table_stays [of reserved db tn dev ty] by auto
      ultimately show ?thesis
        using False Inl by (intro exI [of _ "[]"]) auto
    next
      case (Inr db1)
      let ?t1 = "extend_table t [dev] ty"
      from add_column_Inr [of reserved db tn dev ty db1 t] Inr Cons.prems
      have fresh: "dev \<notin> set (column_names t)" and db1: "db1 = db(tn \<mapsto> ?t1)" by simp_all
      have "db1 tn = Some ?t1" by (simp add: db1)
      with Cons.IH [of db1 ?t1] obtain added where
        a: "fst (alter_loop reserved db1 tn ex devs ty) = db1(tn \<mapsto> extend_table ?t1 added ty)"
          "distinct added" "set added \<subseteq> set devs - set ex - set (column_names ?t1)"
          "snd (alter_loop reserved db1 tn ex devs ty) \<noteq> Some NoSuchTableError"
        by blast
      have eq: "alter_loop reserved db tn ex (dev # devs) ty = alter_loop reserved db1 tn ex devs ty"
        using False Inr by simp
      have names: "set (column_names ?t1) = insert dev (set (column_names t))"
        by (simp add: column_names_extend)
      have 1: "fst (alter_loop reserved db tn ex (dev # devs) ty)
                 = db(tn \<mapsto> extend_table t (dev # added) ty)"
        unfolding eq using a(1) by (simp add: db1 extend_table_Cons)
      have 2: "distinct (dev # added)"
        using a(2,3) names by auto
      have 3: "set (dev # added) \<subseteq> set (dev # devs) - set ex - set (column_names t)"
        using a(3) names False fresh by auto
      have 4: "snd (alter_loop reserved db tn ex (dev # devs) ty) \<noteq> Some NoSuchTableError"
        unfolding eq using a(4) by simp
      from 1 2 3 4 show ?thesis by blast
    qed
  qed
qed

lemma alter_table_absent: "db tn = None \<Longrightarrow> alter_table reserved db tn cols ty = (db, None)"
  by (simp add: alter_table_def Table_None)

lemma alter_table_present:
  assumes "db tn = Some t"
  shows "alter_table reserved db tn cols ty =
           (fst (alter_loop reserved db tn (column_names t) cols ty),
            snd (alter_loop reserved db tn (column_names t) cols ty))"
proof -
  have "snd (alter_loop reserved db tn (column_names t) cols ty) \<noteq> Some NoSuchTableError"
    using assms alter_loop_extend [of db tn t reserved "column_names t" cols ty] by blast
  then show ?thesis
    using assms
    by (cases "alter_loop reserved db tn (column_names t) cols ty")
       (simp add: alter_table_def Table_Some column_names_def)
qed

lemma rows_extend:
  "map time (rows (extend_table t added ty)) = map time (rows t)"
  by (simp add: extend_table_def comp_def)

lemma cell_extend_kept:
  "i < length (rows t) \<Longrightarrow> c \<notin> set added \<Longrightarrow>
     cell (rows (extend_table t added ty) ! i) c = cell (rows t ! i) c"
  by (simp add: extend_table_def cell_def)

lemma cell_extend_new:
  "i < length (rows t) \<Longrightarrow> c \<in> set added \<Longrightarrow> c \<noteq> ''time'' \<Longrightarrow>
     cell (rows (extend_table t added ty) ! i) c = NoneV"
  by (simp add: extend_table_def cell_def)

text \<open>
  What \<^verbatim>\<open>alter_table\<close> keeps on every path, also when a statement is refused. When the
  named table does not exist, nothing changes and nothing is raised. When it exists, only
  that table changes, and only by columns appended behind the ones it had: the added
  columns are of the given type, are among the named columns that the table did not have,
  and are pairwise different; every row keeps its time and its value in every column the
  table had, and reads \<^verbatim>\<open>NULL\<close> in the added columns.
\<close>

lemma alter_table_keeps:
  "(db table_name = None \<longrightarrow> alter_table reserved db table_name cols ty = (db, None)) \<and>
   (db table_name = Some table \<longrightarrow>
      (\<exists>table' added.
          fst (alter_table reserved db table_name cols ty) = db(table_name \<mapsto> table') \<and>
          device_columns table' = device_columns table @ map (\<lambda>c. (c, ty)) added \<and>
          distinct added \<and> set added \<subseteq> set cols - set (column_names table) \<and>
          map time (rows table') = map time (rows table) \<and>
          (\<forall>i<length (rows table). \<forall>c\<in>set (column_names table).
              cell (rows table' ! i) c = cell (rows table ! i) c) \<and>
          (\<forall>i<length (rows table). \<forall>c\<in>set added. cell (rows table' ! i) c = NoneV)))"
proof (intro conjI impI)
  assume "db table_name = None"
  then show "alter_table reserved db table_name cols ty = (db, None)" by (rule alter_table_absent)
next
  assume t: "db table_name = Some table"
  let ?ex = "column_names table"
  from t alter_loop_extend [of db table_name table reserved ?ex cols ty] obtain added where
    a: "fst (alter_loop reserved db table_name ?ex cols ty)
          = db(table_name \<mapsto> extend_table table added ty)"
      "distinct added" "set added \<subseteq> set cols - set ?ex - set ?ex"
    by blast
  let ?t' = "extend_table table added ty"
  have res: "alter_table reserved db table_name cols ty =
      (fst (alter_loop reserved db table_name ?ex cols ty),
       snd (alter_loop reserved db table_name ?ex cols ty))"
    using t by (rule alter_table_present)
  have 1: "fst (alter_table reserved db table_name cols ty) = db(table_name \<mapsto> ?t')"
    by (simp add: res a(1))
  have 2: "device_columns ?t' = device_columns table @ map (\<lambda>c. (c, ty)) added"
    by (simp add: extend_table_def)
  have 3: "set added \<subseteq> set cols - set ?ex" using a(3) by auto
  have 4: "map time (rows ?t') = map time (rows table)" by (rule rows_extend)
  have 5: "\<forall>i<length (rows table). \<forall>c\<in>set ?ex. cell (rows ?t' ! i) c = cell (rows table ! i) c"
    using 3 by (auto intro!: cell_extend_kept)
  have 6: "\<forall>i<length (rows table). \<forall>c\<in>set added. cell (rows ?t' ! i) c = NoneV"
    using 3 time_column [of table] by (auto intro!: cell_extend_new)
  from 1 2 a(2) 3 4 5 6
  show "\<exists>table' added.
          fst (alter_table reserved db table_name cols ty) = db(table_name \<mapsto> table') \<and>
          device_columns table' = device_columns table @ map (\<lambda>c. (c, ty)) added \<and>
          distinct added \<and> set added \<subseteq> set cols - set (column_names table) \<and>
          map time (rows table') = map time (rows table) \<and>
          (\<forall>i<length (rows table). \<forall>c\<in>set (column_names table).
              cell (rows table' ! i) c = cell (rows table ! i) c) \<and>
          (\<forall>i<length (rows table). \<forall>c\<in>set added. cell (rows table' ! i) c = NoneV)"
    by blast
qed

text \<open>
  Claim C6. The claim has \<^verbatim>\<open>alter_table\<close> add exactly the named columns that the table
  does not have, for every table name and every list of column names. The code departs
  from it in two places. \<^verbatim>\<open>_add_column\<close> writes the table's name into the statement
  unquoted, while the column's name is compiled by the dialect: for the table
  \<^verbatim>\<open>Parameter 1\<close> of the class docstring the statement is refused, the exception is not
  the one \<^verbatim>\<open>alter_table\<close> swallows, and the missing column \<^verbatim>\<open>Dev03\<close> is not added. And
  the existing column names are read once, before the loop: a name that stands twice in
  the list is sent to the store twice; the second statement is refused, the exception
  leaves \<^verbatim>\<open>alter_table\<close>, and the names behind it (here \<^verbatim>\<open>Dev04\<close>) are not added.
\<close>

theorem alter_table_refused:
  "alter_table reserved example_store ''Parameter 1'' [''Dev03''] (TNumeric 10 2)
     = (example_store, Some ProgrammingError) \<and>
   snd (alter_table [] collected_store ''CpuTemp1'' [''Dev03'', ''Dev03'', ''Dev04''] (TNumeric 10 2))
     = Some OperationalError \<and>
   map_option column_names
       (fst (alter_table [] collected_store ''CpuTemp1'' [''Dev03'', ''Dev03'', ''Dev04'']
               (TNumeric 10 2)) ''CpuTemp1'')
     = Some [''time'', ''Dev01'', ''Dev02'', ''Dev03'']"
proof -
  have np: "\<not> plain_identifier reserved ''Parameter 1''"
    by (simp add: plain_identifier_def identifier_char_def)
  have a: "alter_table reserved example_store ''Parameter 1'' [''Dev03''] (TNumeric 10 2)
     = (example_store, Some ProgrammingError)"
    by (simp add: alter_table_def Table_def example_store_def columns_def example_table_def
        add_column_def np)
  have p: "plain_identifier [] ''CpuTemp1''"
    by (simp add: plain_identifier_def identifier_char_def digit_char_def)
  have low: "lower ''time'' = ''time''" "lower ''Dev01'' = ''dev01''" "lower ''Dev02'' = ''dev02''"
    "lower ''Dev03'' = ''dev03''" "lower ''Dev04'' = ''dev04''"
    by (simp_all add: lower_def lower_char_def)
  have b: "alter_table [] collected_store ''CpuTemp1'' [''Dev03'', ''Dev03'', ''Dev04''] (TNumeric 10 2)
     = (collected_store(''CpuTemp1'' \<mapsto>
          cpu_temp_table\<lparr>device_columns := device_columns cpu_temp_table @ [(''Dev03'', TNumeric 10 2)],
                         rows := []\<rparr>),
        Some OperationalError)"
    by (simp add: alter_table_def Table_def collected_store_def columns_def cpu_temp_table_def
        add_column_def p low column_names_def)
  show ?thesis
    by (simp add: a b column_names_def columns_def cpu_temp_table_def)
qed

section \<open>Grouping the readings\<close>

lemma save_param_view:
  "view (save_param t chk d p data) =
     (if included chk t p
      then (view data)(param_name p \<mapsto>
             (case view data (param_name p) of None \<Rightarrow> [''time'' \<mapsto> IntV t] | Some m \<Rightarrow> m)
               (device_name d \<mapsto> param_value p))
      else view data)"
  by (auto simp: save_param_def view_def included_def Let_def fun_eq_iff AList.update_conv'
      split: option.splits)

lemma get_data_to_save_fold:
  "get_data_to_save t devs chk = fold (\<lambda>(d, p). save_param t chk d p) (readings devs) []"
proof -
  have "fold (\<lambda>(d, p). save_param t chk d p) (readings devs) data
          = fold (save_device t chk) devs data" for data
    by (induction devs arbitrary: data)
       (simp_all add: readings_def save_device_def fold_map comp_def)
  then show ?thesis by (simp add: get_data_to_save_def)
qed

lemma set_readings:
  "set (readings devs) = {(d, p). d \<in> set devs \<and> p \<in> set (map snd (params_dict d))}"
  by (auto simp: readings_def)

text \<open>What the loop has built after a list of readings.\<close>

lemma fold_view_keys:
  "(view (fold (\<lambda>(d, p). save_param t chk d p) rs []) pn \<noteq> None) =
     (\<exists>(d, p)\<in>set rs. included chk t p \<and> param_name p = pn)"
proof (induction rs rule: rev_induct)
  case Nil
  show ?case by (simp add: view_def)
next
  case (snoc x rs)
  obtain d p where x: "x = (d, p)" by (cases x)
  show ?case
    using snoc by (auto simp: x save_param_view)
qed

lemma fold_view_record:
  assumes "view (fold (\<lambda>(d, p). save_param t chk d p) rs []) pn = Some m"
  shows "((m dn \<noteq> None) =
            (dn = ''time'' \<or>
             (\<exists>(d, p)\<in>set rs. included chk t p \<and> param_name p = pn \<and> device_name d = dn))) \<and>
         (\<forall>v. m dn = Some v \<longrightarrow>
            (dn = ''time'' \<and> v = IntV t) \<or>
            (\<exists>(d, p)\<in>set rs. included chk t p \<and> param_name p = pn \<and> device_name d = dn \<and>
                               v = param_value p)) \<and>
         ((\<forall>(d, p)\<in>set rs. device_name d \<noteq> ''time'') \<longrightarrow> m ''time'' = Some (IntV t))"
  using assms
proof (induction rs arbitrary: m rule: rev_induct)
  case Nil
  then show ?case by (simp add: view_def)
next
  case (snoc x rs)
  obtain d p where x: "x = (d, p)" by (cases x)
  let ?data = "fold (\<lambda>(d, p). save_param t chk d p) rs []"
  show ?case
  proof (cases "included chk t p \<and> param_name p = pn")
    case False
    then have "view ?data pn = Some m"
      using snoc.prems by (auto simp: x save_param_view split: if_splits)
    from snoc.IH [OF this] False show ?thesis
      by (auto simp: x)
  next
    case True
    show ?thesis
    proof (cases "view ?data pn")
      case None
      then have m: "m = [''time'' \<mapsto> IntV t, device_name d \<mapsto> param_value p]"
        using snoc.prems True by (auto simp: x save_param_view)
      have "\<not> (\<exists>(d, p)\<in>set rs. included chk t p \<and> param_name p = pn)"
        using None fold_view_keys [of t chk rs pn] by simp
      then show ?thesis
        using True by (auto simp: x m)
    next
      case (Some m0)
      then have m: "m = m0(device_name d \<mapsto> param_value p)"
        using snoc.prems True by (auto simp: x save_param_view)
      from snoc.IH [OF Some] True show ?thesis
        by (auto simp: x m)
    qed
  qed
qed

lemma set_update_subset: "set (AList.update k v al) \<subseteq> insert (k, v) (set al)"
  by (induction al) auto

lemma save_param_ok:
  assumes "dict_ok data"
  shows "dict_ok (save_param t chk d p data)"
proof -
  let ?pn = "param_name p"
  let ?data1 = "if map_of data ?pn = None
                then AList.update ?pn [(''time'', IntV t)] data else data"
  let ?rec = "case map_of ?data1 ?pn of None \<Rightarrow> [] | Some r \<Rightarrow> r"
  have inner: "\<forall>kv\<in>set data. distinct (map fst (snd kv))"
    using assms by (simp add: dict_ok_def list_all_iff)
  have d1: "distinct (map fst ?data1)"
    using assms by (simp add: dict_ok_def AList.distinct_update)
  have i1: "\<forall>kv\<in>set ?data1. distinct (map fst (snd kv))"
    using inner set_update_subset [of ?pn "[(''time'', IntV t)]" data] by auto
  have "distinct (map fst ?rec)"
  proof (cases "map_of ?data1 ?pn")
    case None
    then show ?thesis by simp
  next
    case (Some r)
    then have "(?pn, r) \<in> set ?data1" by (rule map_of_SomeD)
    with i1 have "distinct (map fst r)" by fastforce
    with Some show ?thesis by simp
  qed
  then have dr: "distinct (map fst (AList.update (device_name d) (param_value p) ?rec))"
    by (rule AList.distinct_update)
  let ?res = "AList.update ?pn (AList.update (device_name d) (param_value p) ?rec) ?data1"
  have "distinct (map fst ?res)" using d1 by (rule AList.distinct_update)
  moreover have "\<forall>kv\<in>set ?res. distinct (map fst (snd kv))"
    using i1 dr set_update_subset [of ?pn "AList.update (device_name d) (param_value p) ?rec" ?data1]
    by auto
  ultimately have "dict_ok ?res" by (simp add: dict_ok_def list_all_iff)
  then show ?thesis
    using assms by (simp add: save_param_def Let_def)
qed

lemma fold_save_param_ok:
  "dict_ok data \<Longrightarrow> dict_ok (fold (\<lambda>(d, p). save_param t chk d p) rs data)"
  by (induction rs arbitrary: data) (auto simp: save_param_ok)

lemma get_data_to_save_ok: "dict_ok (get_data_to_save t devs chk)"
  unfolding get_data_to_save_fold by (rule fold_save_param_ok) (simp add: dict_ok_def)

lemma view_Some: "map_of data pn = Some r \<Longrightarrow> view data pn = Some (map_of r)"
  by (simp add: view_def)

lemma view_None_iff: "(view data pn \<noteq> None) = (pn \<in> set (map fst data))"
  by (simp add: view_def map_of_eq_None_iff)

text \<open>
  Claim C3. \<^verbatim>\<open>get_data_to_save\<close> returns one record per parameter name, and the names
  that have a record are those of the included readings: with the time check on, a
  reading is included if and only if the parameter was last collected at the current
  time or is named \<^verbatim>\<open>online\<close>; with the time check off, every reading is included. The
  record of a parameter name has, besides \<^verbatim>\<open>time\<close>, a key for a device name if and only
  if a device of that name has an included reading of that parameter, and the value under
  the key is the value of such a reading. No device being named \<^verbatim>\<open>time\<close>, the record
  holds the current time under \<^verbatim>\<open>time\<close>.
\<close>

theorem get_data_to_save_groups:
  "included True cur_time q = (last_collected q = cur_time \<or> param_name q = ''online'') \<and>
   included False cur_time q \<and>
   distinct (map fst (get_data_to_save cur_time devs chk)) \<and>
   ((pn \<in> set (map fst (get_data_to_save cur_time devs chk))) =
      (\<exists>d\<in>set devs. \<exists>p\<in>set (map snd (params_dict d)).
          param_name p = pn \<and> included chk cur_time p)) \<and>
   (map_of (get_data_to_save cur_time devs chk) pn = Some record \<longrightarrow>
      distinct (map fst record) \<and>
      (''time'' \<notin> device_name ` set devs \<longrightarrow> map_of record ''time'' = Some (IntV cur_time)) \<and>
      (dn \<noteq> ''time'' \<longrightarrow>
         ((dn \<in> set (map fst record)) =
            (\<exists>d\<in>set devs. \<exists>p\<in>set (map snd (params_dict d)).
                device_name d = dn \<and> param_name p = pn \<and> included chk cur_time p)) \<and>
         (\<forall>v. map_of record dn = Some v \<longrightarrow>
            (\<exists>d\<in>set devs. \<exists>p\<in>set (map snd (params_dict d)).
                device_name d = dn \<and> param_name p = pn \<and> included chk cur_time p \<and>
                v = param_value p))))"
proof -
  let ?res = "get_data_to_save cur_time devs chk"
  have ok: "dict_ok ?res" by (rule get_data_to_save_ok)
  have 1: "distinct (map fst ?res)" using ok by (simp add: dict_ok_def)
  have 2: "(pn \<in> set (map fst ?res)) =
      (\<exists>d\<in>set devs. \<exists>p\<in>set (map snd (params_dict d)).
          param_name p = pn \<and> included chk cur_time p)"
    unfolding view_None_iff [symmetric] get_data_to_save_fold fold_view_keys set_readings
    by auto
  have 3: "distinct (map fst record) \<and>
      (''time'' \<notin> device_name ` set devs \<longrightarrow> map_of record ''time'' = Some (IntV cur_time)) \<and>
      (dn \<noteq> ''time'' \<longrightarrow>
         ((dn \<in> set (map fst record)) =
            (\<exists>d\<in>set devs. \<exists>p\<in>set (map snd (params_dict d)).
                device_name d = dn \<and> param_name p = pn \<and> included chk cur_time p)) \<and>
         (\<forall>v. map_of record dn = Some v \<longrightarrow>
            (\<exists>d\<in>set devs. \<exists>p\<in>set (map snd (params_dict d)).
                device_name d = dn \<and> param_name p = pn \<and> included chk cur_time p \<and>
                v = param_value p)))"
    if r: "map_of ?res pn = Some record"
  proof -
    from r have "(pn, record) \<in> set ?res" by (rule map_of_SomeD)
    with ok have a: "distinct (map fst record)"
      by (fastforce simp: dict_ok_def list_all_iff)
    have v: "view (fold (\<lambda>(d, p). save_param cur_time chk d p) (readings devs) []) pn
               = Some (map_of record)"
      using view_Some [OF r] by (simp add: get_data_to_save_fold)
    note f = fold_view_record [OF v, unfolded set_readings]
    have b: "''time'' \<notin> device_name ` set devs \<longrightarrow> map_of record ''time'' = Some (IntV cur_time)"
    proof
      assume "''time'' \<notin> device_name ` set devs"
      then have "\<forall>(d, p)\<in>{(d, p). d \<in> set devs \<and> p \<in> set (map snd (params_dict d))}.
                   device_name d \<noteq> ''time''"
        by (auto simp: image_iff)
      with f [of "''time''"] show "map_of record ''time'' = Some (IntV cur_time)"
        by blast
    qed
    have k: "(dn \<in> set (map fst record)) = (map_of record dn \<noteq> None)"
      by (simp add: map_of_eq_None_iff)
    have f1: "(map_of record dn \<noteq> None) =
            (dn = ''time'' \<or>
             (\<exists>d\<in>set devs. \<exists>p\<in>set (map snd (params_dict d)).
                device_name d = dn \<and> param_name p = pn \<and> included chk cur_time p))"
      unfolding conjunct1 [OF f [of dn]] by auto
    have c: "dn \<noteq> ''time'' \<longrightarrow>
         ((dn \<in> set (map fst record)) =
            (\<exists>d\<in>set devs. \<exists>p\<in>set (map snd (params_dict d)).
                device_name d = dn \<and> param_name p = pn \<and> included chk cur_time p))"
      unfolding k f1 by simp
    have d: "dn \<noteq> ''time'' \<longrightarrow>
         (\<forall>v. map_of record dn = Some v \<longrightarrow>
            (\<exists>d\<in>set devs. \<exists>p\<in>set (map snd (params_dict d)).
                device_name d = dn \<and> param_name p = pn \<and> included chk cur_time p \<and>
                v = param_value p))"
      using conjunct1 [OF conjunct2 [OF f [of dn]]] by fastforce
    from a b c d show ?thesis by blast
  qed
  have 0: "included True cur_time q = (last_collected q = cur_time \<or> param_name q = ''online'')"
    "included False cur_time q"
    by (simp_all add: included_def)
  from 0 1 2 3 show ?thesis by blast
qed

theorem get_data_to_save_groups_witness:
  "get_data_to_save 1212 example_devices True
     = [(''CpuTemp1'', [(''time'', IntV 1212), (''Dev01'', FloatV (1 / 5))]),
        (''online'', [(''time'', IntV 1212), (''Dev01'', BoolV True)])] \<and>
   get_data_to_save 1212 example_devices False
     = [(''CpuTemp1'', [(''time'', IntV 1212), (''Dev01'', FloatV (1 / 5)), (''Dev02'', FloatV (3 / 10))]),
        (''online'', [(''time'', IntV 1212), (''Dev01'', BoolV True)])] \<and>
   ''time'' \<notin> device_name ` set example_devices \<and>
   map_of (get_data_to_save 1212 example_devices True) ''CpuTemp1''
     = Some [(''time'', IntV 1212), (''Dev01'', FloatV (1 / 5))] \<and>
   map_of [(''time'', IntV 1212), (''Dev01'', FloatV (1 / 5))] ''time'' = Some (IntV 1212) \<and>
   (\<exists>d\<in>set example_devices. \<exists>p\<in>set (map snd (params_dict d)).
       device_name d = ''Dev01'' \<and> param_name p = ''CpuTemp1'' \<and> included True 1212 p \<and>
       FloatV (1 / 5) = param_value p)"
proof -
  let ?r = "[(''time'', IntV 1212), (''Dev01'', FloatV (1 / 5))]"
  have e1: "get_data_to_save 1212 example_devices True
     = [(''CpuTemp1'', ?r), (''online'', [(''time'', IntV 1212), (''Dev01'', BoolV True)])]"
    by (simp add: get_data_to_save_def save_device_def save_param_def example_devices_def)
  have e2: "get_data_to_save 1212 example_devices False
     = [(''CpuTemp1'', [(''time'', IntV 1212), (''Dev01'', FloatV (1 / 5)), (''Dev02'', FloatV (3 / 10))]),
        (''online'', [(''time'', IntV 1212), (''Dev01'', BoolV True)])]"
    by (simp add: get_data_to_save_def save_device_def save_param_def example_devices_def)
  have h1: "''time'' \<notin> device_name ` set example_devices"
    by (simp add: example_devices_def)
  have h2: "map_of (get_data_to_save 1212 example_devices True) ''CpuTemp1'' = Some ?r"
    by (simp add: e1)
  have h3: "''Dev01'' \<noteq> ''time''" by simp
  have h4: "map_of ?r ''Dev01'' = Some (FloatV (1 / 5))" by simp
  from get_data_to_save_groups [of 1212 _ example_devices True "''CpuTemp1''" ?r "''Dev01''"]
    h1 h2 h3 h4
  have a: "map_of ?r ''time'' = Some (IntV 1212)"
    and b: "\<exists>d\<in>set example_devices. \<exists>p\<in>set (map snd (params_dict d)).
       device_name d = ''Dev01'' \<and> param_name p = ''CpuTemp1'' \<and> included True 1212 p \<and>
       FloatV (1 / 5) = param_value p"
    by blast+
  show ?thesis
    by (intro conjI) (rule e1 e2 h1 h2 a b)+
qed

section \<open>Saving and reading back\<close>

lemma insert_success:
  assumes "insert_in_session db pn d = Inr db'" and "map_of d ''time'' = Some (IntV k)"
  shows "\<exists>t. db pn = Some t \<and>
             db' = db(pn \<mapsto> t\<lparr>rows := upsert_rows k (known_values t d) (rows t)\<rparr>)"
proof (cases "db pn")
  case None
  with assms(1) show ?thesis by (simp add: insert_in_session_def Table_None)
next
  case (Some t)
  have conf: "conforms t d"
    using assms(1) Some
    by (cases "conforms t d") (simp_all add: insert_in_session_def Table_Some execute_insert_def)
  show ?thesis
  proof (cases "k \<in> time ` set (rows t)")
    case False
    with Some conf assms insert_fresh [of db pn t d k] show ?thesis
      by (simp add: upsert_rows_def)
  next
    case True
    have sub: "set (map fst d) \<subseteq> set (column_names t)"
      using assms Some conf True
      by (cases "set (map fst d) \<subseteq> set (column_names t)")
         (simp_all add: insert_in_session_def Table_Some execute_insert_def execute_update_def)
    with Some conf assms insert_in_session_step [of db pn t d k] show ?thesis
      by (simp add: known_values_all)
  qed
qed

text \<open>A write concerns its own table only.\<close>

lemma insert_shape:
  assumes "insert_in_session db pn d = Inr db'"
  shows "\<exists>t'. db' = db(pn \<mapsto> t')"
  using assms
  by (auto simp: insert_in_session_def Table_def
      split: option.splits sum.splits error.splits)

lemma insert_local:
  assumes "insert_in_session db pn d = Inr db'" and "db2 pn = db pn"
  shows "insert_in_session db2 pn d = Inr (db2(pn := db' pn))"
  using assms
  by (auto simp: insert_in_session_def Table_def
      split: option.splits sum.splits error.splits)

lemma save_loop_other:
  assumes "pn \<notin> set (map fst data)" and "snd (save_loop db data) = None"
  shows "fst (save_loop db data) pn = db pn"
  using assms
proof (induction data arbitrary: db)
  case Nil
  then show ?case by simp
next
  case (Cons x data)
  obtain pn0 d0 where x: "x = (pn0, d0)" by (cases x)
  from Cons.prems(2) obtain db1 where ins: "insert_in_session db pn0 d0 = Inr db1"
    by (cases "insert_in_session db pn0 d0") (simp_all add: x)
  have loop: "save_loop db (x # data) = save_loop db1 data" by (simp add: x ins)
  from insert_shape [OF ins] Cons.prems(1) have "db1 pn = db pn" by (auto simp: x)
  moreover have "fst (save_loop db1 data) pn = db1 pn"
    using Cons.prems by (intro Cons.IH) (simp_all add: loop)
  ultimately show ?case by (simp add: loop)
qed

lemma save_loop_insert:
  assumes "distinct (map fst data)" and "snd (save_loop db data) = None"
    and "map_of data pn = Some d"
  shows "\<exists>db1. insert_in_session db pn d = Inr db1 \<and> fst (save_loop db data) pn = db1 pn"
  using assms
proof (induction data arbitrary: db)
  case Nil
  then show ?case by simp
next
  case (Cons x data)
  obtain pn0 d0 where x: "x = (pn0, d0)" by (cases x)
  from Cons.prems(2) obtain dbA where ins: "insert_in_session db pn0 d0 = Inr dbA"
    by (cases "insert_in_session db pn0 d0") (simp_all add: x)
  have loop: "save_loop db (x # data) = save_loop dbA data" by (simp add: x ins)
  have rest: "snd (save_loop dbA data) = None" using Cons.prems(2) by (simp add: loop)
  show ?case
  proof (cases "pn = pn0")
    case True
    then have d: "d = d0" using Cons.prems(3) by (simp add: x)
    have "pn0 \<notin> set (map fst data)" using Cons.prems(1) by (simp add: x)
    then have "fst (save_loop dbA data) pn0 = dbA pn0" using rest by (rule save_loop_other)
    with ins True d show ?thesis by (simp add: loop)
  next
    case False
    then have "map_of data pn = Some d" using Cons.prems(3) by (simp add: x)
    with Cons.IH [of dbA] Cons.prems(1) rest obtain db1 where
      a: "insert_in_session dbA pn d = Inr db1" "fst (save_loop dbA data) pn = db1 pn"
      by auto
    from insert_shape [OF ins] False have "db pn = dbA pn" by auto
    with a(1) insert_local [of dbA pn d db1 db]
    have "insert_in_session db pn d = Inr (db(pn := db1 pn))" by simp
    with a(2) show ?thesis by (simp add: loop)
  qed
qed

lemma save_data_insert:
  assumes "snd (save_data db T devs chk) = None"
    and "map_of (get_data_to_save T devs chk) pn = Some d"
  shows "\<exists>db1. insert_in_session db pn d = Inr db1 \<and> fst (save_data db T devs chk) pn = db1 pn"
proof -
  have "distinct (map fst (get_data_to_save T devs chk))"
    using get_data_to_save_ok [of T devs chk] by (simp add: dict_ok_def)
  then show ?thesis
    using assms unfolding save_data_def by (rule save_loop_insert)
qed

lemma grouped_time:
  assumes "''time'' \<notin> device_name ` set devs"
    and "map_of (get_data_to_save T devs chk) pn = Some d"
  shows "map_of d ''time'' = Some (IntV T)"
proof -
  have v: "view (fold (\<lambda>(d, p). save_param T chk d p) (readings devs) []) pn = Some (map_of d)"
    using view_Some [OF assms(2)] by (simp add: get_data_to_save_fold)
  have "\<forall>(d, p)\<in>set (readings devs). device_name d \<noteq> ''time''"
    using assms(1) by (auto simp: set_readings image_iff)
  with fold_view_record [OF v, of "''time''"] show ?thesis by blast
qed

lemma save_data_table:
  assumes "snd (save_data db T devs chk) = None" and "''time'' \<notin> device_name ` set devs"
    and "map_of (get_data_to_save T devs chk) pn = Some d" and "db pn = Some t"
  shows "fst (save_data db T devs chk) pn
           = Some (t\<lparr>rows := upsert_rows T (known_values t d) (rows t)\<rparr>)"
proof -
  from save_data_insert [OF assms(1,3)] obtain db1 where
    a: "insert_in_session db pn d = Inr db1" "fst (save_data db T devs chk) pn = db1 pn"
    by blast
  have "map_of d ''time'' = Some (IntV T)" using assms(2,3) by (rule grouped_time)
  from insert_success [OF a(1) this] assms(4) a(2) show ?thesis by auto
qed


lemma interval_of_times:
  assumes "db tn = Some t" and "time ` set (rows t) = insert (T + 20) (insert T S)"
    and "\<forall>x\<in>S. T \<le> x \<and> x \<le> T + 20"
  shows "get_time_interval db tn = Inr (T, T + 20)"
proof -
  let ?S = "time ` set (rows t)"
  have ne: "rows t \<noteq> []" using assms(2) by auto
  have "finite ?S" by simp
  then have fin: "finite (insert (T + 20) (insert T S))" by (simp only: assms(2))
  have "Min ?S = T" unfolding assms(2) using assms(3) fin by (intro Min_eqI) auto
  moreover have "Max ?S = T + 20" unfolding assms(2) using assms(3) fin by (intro Max_eqI) auto
  moreover have "get_time_interval db tn = Inr (Min ?S, Max ?S)"
    using assms(1) ne by (rule interval_Min_Max)
  ultimately show ?thesis by simp
qed



lemma example_grouped:
  "get_data_to_save T example_devices False
     = [(''CpuTemp1'', [(''time'', IntV T), (''Dev01'', FloatV (1 / 5)), (''Dev02'', FloatV (3 / 10))]),
        (''online'', [(''time'', IntV T), (''Dev01'', BoolV True)])]"
  by (simp add: get_data_to_save_def save_device_def save_param_def example_devices_def)

text \<open>Saving the example devices into tables that hold no row of that time.\<close>

lemma example_saved:
  assumes "- (2 ^ 31) \<le> T" and "T < 2 ^ 31"
    and "db ''CpuTemp1'' = Some t" and "device_columns t = device_columns cpu_temp_table"
    and "T \<notin> time ` set (rows t)"
    and "db ''online'' = Some u" and "device_columns u = device_columns online_table"
    and "T \<notin> time ` set (rows u)"
  shows "save_data db T example_devices False =
     (db(''CpuTemp1'' \<mapsto> t\<lparr>rows := rows t @
           [new_row T [(''time'', IntV T), (''Dev01'', FloatV (1 / 5)), (''Dev02'', FloatV (3 / 10))]]\<rparr>,
         ''online'' \<mapsto> u\<lparr>rows := rows u @ [new_row T [(''time'', IntV T), (''Dev01'', BoolV True)]]\<rparr>),
      None)"
proof -
  let ?cv = "[(''time'', IntV T), (''Dev01'', FloatV (1 / 5)), (''Dev02'', FloatV (3 / 10))]"
  let ?ov = "[(''time'', IntV T), (''Dev01'', BoolV True)]"
  let ?t' = "t\<lparr>rows := rows t @ [new_row T ?cv]\<rparr>"
  let ?db1 = "db(''CpuTemp1'' \<mapsto> ?t')"
  have c1: "conforms t ?cv"
    using assms(1,2) by (simp add: conforms_def columns_def assms(4) cpu_temp_table_def)
  have k1: "known_values t ?cv = ?cv"
    by (simp add: known_values_def column_names_def columns_def assms(4) cpu_temp_table_def)
  have i1: "insert_in_session db ''CpuTemp1'' ?cv = Inr ?db1"
    using insert_fresh [of db "''CpuTemp1''" t ?cv T] assms(3,5) c1 by (simp add: k1)
  have c2: "conforms u ?ov"
    using assms(1,2) by (simp add: conforms_def columns_def assms(7) online_table_def)
  have k2: "known_values u ?ov = ?ov"
    by (simp add: known_values_def column_names_def columns_def assms(7) online_table_def)
  have "?db1 ''online'' = Some u" using assms(6) by simp
  with insert_fresh [of ?db1 "''online''" u ?ov T] assms(8) c2
  have i2: "insert_in_session ?db1 ''online'' ?ov
              = Inr (?db1(''online'' \<mapsto> u\<lparr>rows := rows u @ [new_row T ?ov]\<rparr>))"
    by (simp add: k2)
  show ?thesis
    unfolding save_data_def example_grouped by (simp add: i1 i2)
qed

lemma example_first:
  "save_data collected_store 1212 example_devices False =
     (collected_store
        (''CpuTemp1'' \<mapsto> cpu_temp_table\<lparr>rows := rows cpu_temp_table @
           [new_row 1212 [(''time'', IntV 1212), (''Dev01'', FloatV (1 / 5)), (''Dev02'', FloatV (3 / 10))]]\<rparr>,
         ''online'' \<mapsto> online_table\<lparr>rows := rows online_table @
           [new_row 1212 [(''time'', IntV 1212), (''Dev01'', BoolV True)]]\<rparr>),
      None)"
  by (rule example_saved) (simp_all add: collected_store_def cpu_temp_table_def online_table_def)

lemma example_second:
  "snd (save_data (fst (save_data collected_store 1212 example_devices False)) (1212 + 20)
          example_devices False) = None"
proof -
  let ?t = "cpu_temp_table\<lparr>rows := rows cpu_temp_table @
           [new_row 1212 [(''time'', IntV 1212), (''Dev01'', FloatV (1 / 5)), (''Dev02'', FloatV (3 / 10))]]\<rparr>"
  let ?u = "online_table\<lparr>rows := rows online_table @
           [new_row 1212 [(''time'', IntV 1212), (''Dev01'', BoolV True)]]\<rparr>"
  let ?db1 = "collected_store(''CpuTemp1'' \<mapsto> ?t, ''online'' \<mapsto> ?u)"
  have "save_data ?db1 (1212 + 20) example_devices False =
     (?db1(''CpuTemp1'' \<mapsto> ?t\<lparr>rows := rows ?t @
           [new_row (1212 + 20)
              [(''time'', IntV (1212 + 20)), (''Dev01'', FloatV (1 / 5)), (''Dev02'', FloatV (3 / 10))]]\<rparr>,
         ''online'' \<mapsto> ?u\<lparr>rows := rows ?u @
           [new_row (1212 + 20) [(''time'', IntV (1212 + 20)), (''Dev01'', BoolV True)]]\<rparr>),
      None)"
    by (rule example_saved) (simp_all add: cpu_temp_table_def online_table_def new_row_def)
  then show ?thesis by (simp add: example_first)
qed


text \<open>
  Claim C4. On a table with at least one row \<^verbatim>\<open>get_time_interval\<close> returns the pair of the
  earliest and the latest time over all rows, which are the first and the last time of
  the rows in ascending order. In particular, when every row already in the table lies
  between \<open>T\<close> and \<open>T + 20\<close> (an empty table among them), saving at time \<open>T\<close> and then at
  time \<open>T + 20\<close>, each time with a reading of the table's parameter and without an
  exception, makes the interval \<open>(T, T + 20)\<close>.
\<close>

theorem get_time_interval_bounds:
  assumes "db table_name = Some table"
  shows "(rows table \<noteq> [] \<longrightarrow>
            get_time_interval db table_name
              = Inr (Min (time ` set (rows table)), Max (time ` set (rows table))) \<and>
            get_time_interval db table_name
              = Inr (hd (sort (map time (rows table))), last (sort (map time (rows table))))) \<and>
         ((\<forall>r\<in>set (rows table). T \<le> time r \<and> time r \<le> T + 20) \<and>
          snd (save_data db T devs chk) = None \<and>
          snd (save_data (fst (save_data db T devs chk)) (T + 20) devs' chk') = None \<and>
          table_name \<in> set (map fst (get_data_to_save T devs chk)) \<and>
          table_name \<in> set (map fst (get_data_to_save (T + 20) devs' chk')) \<and>
          ''time'' \<notin> device_name ` set devs \<and> ''time'' \<notin> device_name ` set devs' \<longrightarrow>
            get_time_interval (fst (save_data (fst (save_data db T devs chk)) (T + 20) devs' chk'))
                table_name
              = Inr (T, T + 20))"
proof (intro conjI impI)
  assume "rows table \<noteq> []"
  with assms show "get_time_interval db table_name
              = Inr (Min (time ` set (rows table)), Max (time ` set (rows table)))"
    by (rule interval_Min_Max)
next
  assume "rows table \<noteq> []"
  with assms show "get_time_interval db table_name
              = Inr (hd (sort (map time (rows table))), last (sort (map time (rows table))))"
    by (rule interval_sorted)
next
  let ?db1 = "fst (save_data db T devs chk)"
  let ?db2 = "fst (save_data ?db1 (T + 20) devs' chk')"
  assume h: "(\<forall>r\<in>set (rows table). T \<le> time r \<and> time r \<le> T + 20) \<and>
          snd (save_data db T devs chk) = None \<and>
          snd (save_data ?db1 (T + 20) devs' chk') = None \<and>
          table_name \<in> set (map fst (get_data_to_save T devs chk)) \<and>
          table_name \<in> set (map fst (get_data_to_save (T + 20) devs' chk')) \<and>
          ''time'' \<notin> device_name ` set devs \<and> ''time'' \<notin> device_name ` set devs'"
  then obtain d1 d2 where
    d1: "map_of (get_data_to_save T devs chk) table_name = Some d1" and
    d2: "map_of (get_data_to_save (T + 20) devs' chk') table_name = Some d2"
    by (metis map_of_eq_None_iff not_Some_eq list.set_map)
  define t1 where "t1 = table\<lparr>rows := upsert_rows T (known_values table d1) (rows table)\<rparr>"
  define t2 where "t2 = t1\<lparr>rows := upsert_rows (T + 20) (known_values t1 d2) (rows t1)\<rparr>"
  have "map_of d1 ''time'' = Some (IntV T)"
    using h d1 grouped_time [of devs T chk table_name d1] by blast
  then have k1: "map_of (known_values table d1) ''time'' = Some (IntV T)"
    by (simp add: known_values_time)
  have "map_of d2 ''time'' = Some (IntV (T + 20))"
    using h d2 grouped_time [of devs' "T + 20" chk' table_name d2] by blast
  then have k2: "map_of (known_values t1 d2) ''time'' = Some (IntV (T + 20))"
    by (simp add: known_values_time)
  have s1: "?db1 table_name = Some t1"
    unfolding t1_def using h d1 assms save_data_table [of db T devs chk table_name d1 table] by blast
  have s2: "?db2 table_name = Some t2"
    unfolding t2_def
    using h d2 s1 save_data_table [of ?db1 "T + 20" devs' chk' table_name d2 t1] by blast
  have "time ` set (rows t1) = insert T (time ` set (rows table))"
    using set_time_upsert [OF k1, of "rows table"] by (simp add: t1_def)
  moreover have "time ` set (rows t2) = insert (T + 20) (time ` set (rows t1))"
    using set_time_upsert [OF k2, of "rows t1"] by (simp add: t2_def)
  ultimately have times:
    "time ` set (rows t2) = insert (T + 20) (insert T (time ` set (rows table)))"
    by simp
  have "\<forall>x\<in>time ` set (rows table). T \<le> x \<and> x \<le> T + 20" using h by auto
  with s2 times show "get_time_interval ?db2 table_name = Inr (T, T + 20)"
    by (rule interval_of_times)
qed

theorem get_time_interval_bounds_witness:
  "example_store ''Parameter 1'' = Some example_table \<and>
   rows example_table \<noteq> [] \<and>
   get_time_interval example_store ''Parameter 1'' = Inr (1230, 1235) \<and>
   collected_store ''CpuTemp1'' = Some cpu_temp_table \<and>
   rows cpu_temp_table = [] \<and>
   snd (save_data collected_store 1212 example_devices False) = None \<and>
   snd (save_data (fst (save_data collected_store 1212 example_devices False)) (1212 + 20)
          example_devices False) = None \<and>
   ''CpuTemp1'' \<in> set (map fst (get_data_to_save 1212 example_devices False)) \<and>
   ''CpuTemp1'' \<in> set (map fst (get_data_to_save (1212 + 20) example_devices False)) \<and>
   ''time'' \<notin> device_name ` set example_devices \<and>
   get_time_interval
       (fst (save_data (fst (save_data collected_store 1212 example_devices False)) (1212 + 20)
               example_devices False))
       ''CpuTemp1''
     = Inr (1212, 1212 + 20)"
proof -
  let ?db1 = "fst (save_data collected_store 1212 example_devices False)"
  have h1: "example_store ''Parameter 1'' = Some example_table"
    by (simp add: example_store_def)
  have h2: "rows example_table \<noteq> []"
    by (simp add: example_table_def)
  have mm: "Min (time ` set (rows example_table)) = 1230" "Max (time ` set (rows example_table)) = 1235"
    by (simp_all add: example_table_def new_row_def)
  have a: "get_time_interval example_store ''Parameter 1'' = Inr (1230, 1235)"
    using get_time_interval_bounds [of example_store "''Parameter 1''" example_table, OF h1] h2 mm
    by simp
  have g1: "collected_store ''CpuTemp1'' = Some cpu_temp_table"
    by (simp add: collected_store_def)
  have g2: "rows cpu_temp_table = []" by (simp add: cpu_temp_table_def)
  have g3: "snd (save_data collected_store 1212 example_devices False) = None"
    by (simp add: example_first)
  have g4: "snd (save_data ?db1 (1212 + 20) example_devices False) = None"
    by (rule example_second)
  have g5: "''CpuTemp1'' \<in> set (map fst (get_data_to_save 1212 example_devices False))"
    and g6: "''CpuTemp1'' \<in> set (map fst (get_data_to_save (1212 + 20) example_devices False))"
    by (simp_all add: example_grouped)
  have g7: "''time'' \<notin> device_name ` set example_devices"
    by (simp add: example_devices_def)
  have g0: "\<forall>r\<in>set (rows cpu_temp_table). (1212::int) \<le> time r \<and> time r \<le> 1212 + 20"
    by (simp add: g2)
  have b: "get_time_interval (fst (save_data ?db1 (1212 + 20) example_devices False)) ''CpuTemp1''
             = Inr (1212, 1212 + 20)"
    using get_time_interval_bounds [of collected_store "''CpuTemp1''" cpu_temp_table 1212
        example_devices False example_devices False, OF g1] g0 g3 g4 g5 g6 g7
    by blast
  show ?thesis
    by (intro conjI) (rule h1 h2 a g1 g2 g3 g4 g5 g6 g7 b)+
qed

end
